theory Spec2Isabelle
  imports Main "HOL-Library.AList"
begin

section \<open>The markup tree\<close>

text \<open>
  An lxml element as \<^verbatim>\<open>iati/core/schemas.py\<close> uses it: the tag in Clark notation
  (\<^verbatim>\<open>{uri}local\<close>), the attributes in their order, the namespace declarations and
  the child elements in document order.
\<close>

datatype element =
  Element (tag: string) (attrib: "(string \<times> string) list")
    (nsmap: "(string \<times> string) list") (children: "element list")

datatype error =
  IOError | OSError | SchemaError | KeyError | AttributeError | XIncludeError | SyntaxError

text \<open>\<^verbatim>\<open>element.get(key)\<close>: the value of an attribute, or \<^verbatim>\<open>None\<close>.\<close>

definition get :: "element \<Rightarrow> string \<Rightarrow> string option" where
  "get e k = map_of (attrib e) k"

definition set_children :: "element list \<Rightarrow> element \<Rightarrow> element" where
  "set_children cs e = Element (tag e) (attrib e) (nsmap e) cs"

text \<open>\<^verbatim>\<open>element.attrib[key] = value\<close>.\<close>

definition set_attrib :: "string \<Rightarrow> string \<Rightarrow> element \<Rightarrow> element" where
  "set_attrib k v e = Element (tag e) (AList.update k v (attrib e)) (nsmap e) (children e)"

text \<open>
  All elements below an element, in document order (\<^verbatim>\<open>iterdescendants\<close>); the
  element itself is not among them.
\<close>

fun iterdescendants :: "element \<Rightarrow> element list" where
  "iterdescendants (Element t a n cs) = concat (map (\<lambda>c. c # iterdescendants c) cs)"

text \<open>\<^verbatim>\<open>element.find(tag)\<close> and \<^verbatim>\<open>element.findall(tag)\<close> with a plain tag as the
  path: the direct children with that tag.\<close>

definition find_tag :: "string \<Rightarrow> element \<Rightarrow> element option" where
  "find_tag t e = List.find (\<lambda>c. tag c = t) (children e)"

definition findall_tag :: "string \<Rightarrow> element \<Rightarrow> element list" where
  "findall_tag t e = filter (\<lambda>c. tag c = t) (children e)"

text \<open>The position of the first child with a tag: \<^verbatim>\<open>el.getparent().index(el)\<close> for the
  element that \<^verbatim>\<open>find\<close> returned.\<close>

definition index_tag :: "string \<Rightarrow> element list \<Rightarrow> nat" where
  "index_tag t cs = length (takeWhile (\<lambda>c. tag c \<noteq> t) cs)"

text \<open>\<^verbatim>\<open>list.insert(i, x)\<close> for an index within the list.\<close>

definition insert_at :: "nat \<Rightarrow> 'a \<Rightarrow> 'a list \<Rightarrow> 'a list" where
  "insert_at i x xs = take i xs @ x # drop i xs"

text \<open>
  \<^verbatim>\<open>etree.strip_elements(root, tag)\<close>: every element below the root that carries the
  tag is deleted with its whole subtree; the root itself stays.
\<close>

fun strip_elements :: "string \<Rightarrow> element \<Rightarrow> element" where
  "strip_elements t (Element tg a n cs) =
     Element tg a n (map (strip_elements t) (filter (\<lambda>c. tag c \<noteq> t) cs))"

section \<open>Constants and collaborators\<close>

text \<open>
  Modelled from the spec: the module \<^verbatim>\<open>iati.core.constants\<close> is not among the sources.
  \<^verbatim>\<open>NSMAP\<close> binds the prefix \<^verbatim>\<open>xsd\<close> that the paths in \<^verbatim>\<open>schemas.py\<close> use to the XML
  Schema namespace, and \<^verbatim>\<open>NAMESPACE\<close> is that namespace in Clark notation.
\<close>

definition NSMAP :: "(string \<times> string) list" where
  "NSMAP = [(''xsd'', ''http://www.w3.org/2001/XMLSchema'')]"

definition NAMESPACE :: string where
  "NAMESPACE = ''{http://www.w3.org/2001/XMLSchema}''"

definition include_xpath :: string where
  "include_xpath = NAMESPACE @ ''include''"

definition import_xpath :: string where
  "import_xpath = NAMESPACE @ ''import''"

definition schema_xpath :: string where
  "schema_xpath = NAMESPACE @ ''schema''"

definition xi_name :: string where
  "xi_name = ''xi''"

definition xi_uri :: string where
  "xi_uri = ''http://www.w3.org/2001/XInclude''"

definition xi_include :: string where
  "xi_include = ''{'' @ xi_uri @ ''}include''"

text \<open>
  What the module calls and does not define: the loader and the path functions of
  \<^verbatim>\<open>iati.core.resources\<close>, lxml's \<^verbatim>\<open>tree.xinclude()\<close>, and lxml's ElementPath on
  a path text outside the fragment modelled in \<open>get_xsd_element\<close> below. They are
  parameters of the model.
\<close>

record env =
  load_as_tree :: "string \<Rightarrow> error + element"
  resource_filename :: "string \<Rightarrow> string"
  get_schema_path :: "string \<Rightarrow> string"
  xinclude :: "element \<Rightarrow> error + element"
  elementpath :: "string \<Rightarrow> element \<Rightarrow> error + element option"

text \<open>
  Modelled from the spec: \<^verbatim>\<open>iati.core.utilities.add_namespace\<close> is not among the
  sources. The spec has it register the namespace declaration on the root of the tree,
  merged into the declarations already there. \<^verbatim>\<open>schemas.py\<close> drops its return value.
\<close>

definition add_namespace :: "element \<Rightarrow> string \<Rightarrow> string \<Rightarrow> element" where
  "add_namespace tree new_ns_name new_ns_uri =
     Element (tag tree) (attrib tree) (AList.update new_ns_name new_ns_uri (nsmap tree))
       (children tree)"

section \<open>The inclusion rewriter\<close>

text \<open>
  \<^verbatim>\<open>Schema._change_include_to_xinclude(tree)\<close>. The source mutates the tree and returns
  it, or returns \<^verbatim>\<open>None\<close> with the tree untouched when the root has no
  \<^verbatim>\<open>xsd:include\<close> child. \<open>Inr None\<close> is that return; \<open>Inr (Some t)\<close> is the mutated
  tree; \<open>Inl\<close> is the exception of a missing \<^verbatim>\<open>schemaLocation\<close> key or of a missing
  \<^verbatim>\<open>xsd:import\<close> (the attribute access on \<^verbatim>\<open>None\<close>).
\<close>

definition change_include_to_xinclude :: "env \<Rightarrow> element \<Rightarrow> error + element option" where
  "change_include_to_xinclude env tree =
     (case find_tag include_xpath tree of
        None \<Rightarrow> Inr None
      | Some include_el \<Rightarrow>
         (case get include_el ''schemaLocation'' of
            None \<Rightarrow> Inl KeyError
          | Some include_location \<Rightarrow>
             (let tree1 = add_namespace tree xi_name xi_uri;
                  new_nsmap = AList.update xi_name xi_uri
                     (fold (\<lambda>(key, val). AList.update key val) NSMAP []);
                  xinclude_el = Element xi_include
                     [(''href'', resource_filename env (get_schema_path env
                         (take (length include_location - 4) include_location))),
                      (''parse'', ''xml'')]
                     new_nsmap []
              in case find_tag import_xpath tree1 of
                   None \<Rightarrow> Inl AttributeError
                 | Some import_el \<Rightarrow>
                    (let i = index_tag import_xpath (children tree1);
                         import_el' = set_attrib ''schemaLocation''
                            (resource_filename env (get_schema_path env ''xml'')) import_el;
                         tree2 = set_children
                            (insert_at (i + 1) xinclude_el ((children tree1)[i := import_el']))
                            tree1
                     in Inr (Some (strip_elements include_xpath tree2))))))"

section \<open>Flattening\<close>

text \<open>
  The loops of \<^verbatim>\<open>Schema._flatten_includes\<close>. \<open>move_up i elems rs\<close> is the inner loop
  over the copy \<^verbatim>\<open>nested_schema_el[:]\<close>, for the nested schema element at position
  \<open>i\<close> of the root's children \<open>rs\<close>: a child with a \<^verbatim>\<open>schemaLocation\<close> is passed
  over, any other child is inserted into the root at position \<open>i + 1\<close>, which takes it
  out of the nested schema element. lxml takes out that very child; \<open>remove1\<close> takes
  out the first child equal to it, which is the same one, since the children in front
  of it that are still there carry a \<^verbatim>\<open>schemaLocation\<close> and it does not. The test
  \<^verbatim>\<open>isinstance(nested_schema_el, etree._Element)\<close> holds for everything that
  \<^verbatim>\<open>findall\<close> returns.
\<close>

definition remove_child :: "element \<Rightarrow> element \<Rightarrow> element" where
  "remove_child elem parent = set_children (remove1 elem (children parent)) parent"

fun move_up :: "nat \<Rightarrow> element list \<Rightarrow> element list \<Rightarrow> element list" where
  "move_up i [] rs = rs"
| "move_up i (elem # elems) rs =
     (if get elem ''schemaLocation'' \<noteq> None then move_up i elems rs
      else move_up i elems (insert_at (i + 1) elem (rs[i := remove_child elem (rs ! i)])))"

text \<open>
  The outer loop runs over the list that \<^verbatim>\<open>findall\<close> returned before the first
  insertion, here the positions of those elements. Every insertion for the element at
  position \<open>i\<close> lands behind it and in front of the later ones, whose positions grow
  by the number of elements inserted.
\<close>

definition findall_index :: "string \<Rightarrow> element list \<Rightarrow> nat list" where
  "findall_index t cs = filter (\<lambda>i. tag (cs ! i) = t) [0..<length cs]"

fun nested_loop :: "nat list \<Rightarrow> element list \<Rightarrow> element list" where
  "nested_loop [] rs = rs"
| "nested_loop (i # is) rs =
     (let rs' = move_up i (children (rs ! i)) rs
      in nested_loop (map (\<lambda>j. j + (length rs' - length rs)) is) rs')"

text \<open>Lines 156 to 166: the hoisting loops, then the strip of the nested schema
  elements.\<close>

definition remove_nested_schema :: "element \<Rightarrow> element" where
  "remove_nested_schema tree =
     strip_elements schema_xpath
       (set_children (nested_loop (findall_index schema_xpath (children tree)) (children tree))
          tree)"

text \<open>
  \<^verbatim>\<open>Schema._flatten_includes()\<close>, on the tree the schema holds; the result is the tree
  it holds afterwards.
\<close>

definition flatten_includes :: "env \<Rightarrow> element \<Rightarrow> error + element" where
  "flatten_includes env schema_base_tree =
     (case change_include_to_xinclude env schema_base_tree of
        Inl err \<Rightarrow> Inl err
      | Inr None \<Rightarrow> Inr schema_base_tree
      | Inr (Some tree) \<Rightarrow>
         (case xinclude env tree of
            Inl err \<Rightarrow> Inl err
          | Inr tree' \<Rightarrow> Inr (remove_nested_schema tree')))"

section \<open>The schema\<close>

record schema =
  schema_base_tree :: element
  codelists :: "string set"

text \<open>
  \<^verbatim>\<open>Schema.__init__(path)\<close>. The first component is what \<^verbatim>\<open>log_error\<close> was given;
  the second is the exception that leaves the constructor, or the schema.
\<close>

definition load_failure_msg :: "string \<Rightarrow> string" where
  "load_failure_msg path =
     ''Failed to load tree at '' @ [CHR 0x27] @ path @ [CHR 0x27] @ '' when creating Schema.''"

definition Schema_init :: "env \<Rightarrow> string \<Rightarrow> string list \<times> (error + schema)" where
  "Schema_init env path =
     (case load_as_tree env path of
        Inl e \<Rightarrow>
          (if e = IOError \<or> e = OSError then ([load_failure_msg path], Inl SchemaError)
           else ([], Inl e))
      | Inr loaded_tree \<Rightarrow>
          (case flatten_includes env loaded_tree of
             Inl e \<Rightarrow> ([], Inl e)
           | Inr t \<Rightarrow> ([], Inr \<lparr>schema_base_tree = t, codelists = {}\<rparr>)))"

section \<open>Navigation\<close>

definition xsd_element :: string where
  "xsd_element = NAMESPACE @ ''element''"

definition xsd_complexType :: string where
  "xsd_complexType = NAMESPACE @ ''complexType''"

definition xsd_sequence :: string where
  "xsd_sequence = NAMESPACE @ ''sequence''"

definition dquote :: char where
  "dquote = CHR 0x22"

text \<open>The path text that \<^verbatim>\<open>get_xsd_element\<close> formats: the name goes in as it is.\<close>

definition xsd_element_path :: "string \<Rightarrow> string" where
  "xsd_element_path xsd_element_name =
     ''//xsd:element[@name='' @ [dquote] @ xsd_element_name @ [dquote] @ '']''"

text \<open>
  \<^verbatim>\<open>Schema.get_xsd_element(xsd_element_name)\<close>. \<^verbatim>\<open>ElementTree.find\<close> puts a dot in
  front of a path that starts with a slash and searches from the root element, so the
  step \<^verbatim>\<open>//xsd:element\<close> runs over the elements below the root in document order, with
  \<^verbatim>\<open>xsd\<close> resolved through \<^verbatim>\<open>NSMAP\<close>. ElementPath reads the double-quoted value of the
  predicate up to the next double quote:
  \<^item> a name without a double quote is the whole value, and the predicate selects the
    elements whose \<^verbatim>\<open>name\<close> attribute equals it; \<^verbatim>\<open>find\<close> returns the first one, or
    \<^verbatim>\<open>None\<close>;
  \<^item> a name whose only double quote is its last character closes the value early and
    leaves a lone quote in front of the bracket, which ElementPath rejects with
    \<^verbatim>\<open>SyntaxError: invalid predicate\<close>;
  \<^item> with any other name the text after its first double quote is read as path syntax;
    that is left to the parameter \<open>elementpath\<close>.
\<close>

definition get_xsd_element :: "env \<Rightarrow> element \<Rightarrow> string \<Rightarrow> error + element option" where
  "get_xsd_element env tree xsd_element_name =
     (let rest = dropWhile (\<lambda>c. c \<noteq> dquote) xsd_element_name
      in if rest = [] then
           Inr (List.find (\<lambda>e. tag e = xsd_element \<and> get e ''name'' = Some xsd_element_name)
                  (iterdescendants tree))
         else if rest = [dquote] then Inl SyntaxError
         else elementpath env (''.'' @ xsd_element_path xsd_element_name) tree)"

text \<open>\<^verbatim>\<open>parent_element.findall('xsd:complexType/xsd:sequence/xsd:element')\<close>: three
  child steps.\<close>

definition child_elements_and_refs :: "element \<Rightarrow> element list" where
  "child_elements_and_refs parent_element =
     concat (map (\<lambda>ct. concat (map (findall_tag xsd_element) (findall_tag xsd_sequence ct)))
       (findall_tag xsd_complexType parent_element))"

text \<open>
  The loop of \<^verbatim>\<open>Schema.get_child_xsd_elements\<close> with the list \<^verbatim>\<open>output\<close> it appends
  to. An entry of the list is an element or \<^verbatim>\<open>None\<close>; an exception of
  \<^verbatim>\<open>get_xsd_element\<close> ends the loop.
\<close>

fun append_children ::
  "env \<Rightarrow> element \<Rightarrow> element list \<Rightarrow> element option list \<Rightarrow> error + element option list"
where
  "append_children env tree [] output = Inr output"
| "append_children env tree (element_or_ref # rest) output =
     (case get element_or_ref ''ref'' of
        Some r \<Rightarrow>
          (case get_xsd_element env tree r of
             Inl err \<Rightarrow> Inl err
           | Inr found \<Rightarrow> append_children env tree rest (output @ [found]))
      | None \<Rightarrow>
          (case get element_or_ref ''name'' of
             Some n \<Rightarrow> append_children env tree rest (output @ [Some element_or_ref])
           | None \<Rightarrow> append_children env tree rest output))"

definition get_child_xsd_elements ::
  "env \<Rightarrow> element \<Rightarrow> element \<Rightarrow> error + element option list"
where
  "get_child_xsd_elements env tree parent_element =
     append_children env tree (child_elements_and_refs parent_element) []"

text \<open>An \<^verbatim>\<open>xsd:element\<close> with a given \<^verbatim>\<open>name\<close> attribute.\<close>

definition named :: "string \<Rightarrow> element \<Rightarrow> bool" where
  "named n e = (tag e = xsd_element \<and> get e ''name'' = Some n)"


section \<open>A resolver for the examples\<close>

text \<open>
  \<^verbatim>\<open>tree.xinclude()\<close> is lxml's. The resolver below is the substitution the spec
  describes, over a table of documents by path: an \<^verbatim>\<open>xi:include\<close> element whose
  \<^verbatim>\<open>href\<close> is in the table is replaced by the root element of that document, and one
  that cannot be resolved is an error. The examples instantiate \<open>xinclude\<close> with it.
\<close>

definition resolvable :: "(string \<Rightarrow> element option) \<Rightarrow> element \<Rightarrow> bool" where
  "resolvable docs c =
     (tag c = xi_include \<and> (case get c ''href'' of None \<Rightarrow> False | Some h \<Rightarrow> docs h \<noteq> None))"

definition referenced :: "(string \<Rightarrow> element option) \<Rightarrow> element \<Rightarrow> element" where
  "referenced docs c = (case get c ''href'' of None \<Rightarrow> c | Some h \<Rightarrow>
     (case docs h of None \<Rightarrow> c | Some d \<Rightarrow> d))"

fun substitute :: "(string \<Rightarrow> element option) \<Rightarrow> element \<Rightarrow> element" where
  "substitute docs (Element t a n cs) =
     Element t a n
       (map (\<lambda>c. if resolvable docs c then referenced docs c else substitute docs c) cs)"

definition xinclude_docs :: "(string \<Rightarrow> element option) \<Rightarrow> element \<Rightarrow> error + element" where
  "xinclude_docs docs tree =
     (let tree' = substitute docs tree
      in if xi_include \<in> set (map tag (iterdescendants tree')) then Inl XIncludeError
         else Inr tree')"

section \<open>What the loops compute\<close>

text \<open>
  The children of a nested schema element that stay in it (those with a
  \<^verbatim>\<open>schemaLocation\<close>) and those that are moved into the root, each in the order of the
  nested schema element.
\<close>

definition stays :: "element \<Rightarrow> element list" where
  "stays w = filter (\<lambda>c. get c ''schemaLocation'' \<noteq> None) (children w)"

definition moved :: "element \<Rightarrow> element list" where
  "moved w = filter (\<lambda>c. get c ''schemaLocation'' = None) (children w)"

text \<open>What a child of the root has become when the loops end: an element with the tag
  \<open>t\<close> is followed by its moved children, last one first.\<close>

definition hoisted :: "string \<Rightarrow> element \<Rightarrow> element list" where
  "hoisted t c = (if tag c = t then set_children (stays c) c # rev (moved c) else [c])"

text \<open>\<^verbatim>\<open>strip_elements\<close> on a list of siblings.\<close>

definition strip_list :: "string \<Rightarrow> element list \<Rightarrow> element list" where
  "strip_list t cs = map (strip_elements t) (filter (\<lambda>c. tag c \<noteq> t) cs)"

text \<open>The tags that occur below an element.\<close>

definition tags_below :: "element \<Rightarrow> string set" where
  "tags_below e = set (map tag (iterdescendants e))"


section \<open>Examples\<close>

text \<open>
  Small trees in the shape of the IATI schemas: a main schema that includes a common
  one, a schema without an include, one with markers that no include brings in, and
  one whose included document is itself an include.
\<close>

definition el :: "string \<Rightarrow> (string \<times> string) list \<Rightarrow> element list \<Rightarrow> element" where
  "el t a cs = Element t a [] cs"

definition ex_import :: element where
  "ex_import = el import_xpath [(''schemaLocation'', ''xml.xsd'')] []"

definition ex_import' :: element where
  "ex_import' = el import_xpath [(''schemaLocation'', ''/r/xml.xsd'')] []"

definition ex_org :: element where
  "ex_org = el xsd_element [(''name'', ''reporting-org'')] []"

definition ex_title :: element where
  "ex_title = el xsd_element [(''name'', ''title'')] []"

definition ex_common :: element where
  "ex_common = el schema_xpath [] [ex_import, ex_org, ex_title]"

definition ex_inline :: element where
  "ex_inline = el xsd_element [(''name'', ''inline'')] []"

definition ex_ref_title :: element where
  "ex_ref_title = el xsd_element [(''ref'', ''title'')] []"

definition ex_bare :: element where
  "ex_bare = el xsd_element [] []"

definition ex_ref_missing :: element where
  "ex_ref_missing = el xsd_element [(''ref'', ''missing'')] []"

definition ex_shape :: "element list" where
  "ex_shape = [ex_inline, ex_ref_title, ex_bare, ex_ref_missing]"

definition ex_activities :: element where
  "ex_activities = el xsd_element [(''name'', ''iati-activities'')]
     [el xsd_complexType [] [el xsd_sequence [] ex_shape]]"

definition ex_include :: element where
  "ex_include = el include_xpath [(''schemaLocation'', ''iati-common.xsd'')] []"

definition ex_note :: element where
  "ex_note = el (NAMESPACE @ ''annotation'') [] []"

definition ex_main :: element where
  "ex_main = el schema_xpath [] [ex_note, ex_import, ex_include, ex_activities]"

definition ex_plain :: element where
  "ex_plain = el schema_xpath [] [el xsd_element [(''name'', ''note'')] []]"

definition ex_nested :: element where
  "ex_nested = el schema_xpath []
     [el schema_xpath [] [ex_title], el xi_include [(''href'', ''x.xsd'')] [],
      el xsd_element [(''name'', ''a'')] [ex_include]]"

definition ex_chain :: element where
  "ex_chain = el schema_xpath [] [ex_import, el include_xpath [(''schemaLocation'', ''chain.xsd'')] []]"

definition ex_docs :: "string \<Rightarrow> element option" where
  "ex_docs = map_of [(''/r/iati-common.xsd'', ex_common), (''/r/chain.xsd'', ex_include)]"

definition ex_env :: env where
  "ex_env = \<lparr>load_as_tree = (\<lambda>p. if p = ''main.xsd'' then Inr ex_main
        else if p = ''plain.xsd'' then Inr ex_plain
        else if p = ''nested.xsd'' then Inr ex_nested
        else if p = ''chain.xsd'' then Inr ex_chain
        else Inl IOError),
     resource_filename = (\<lambda>p. ''/r/'' @ p),
     get_schema_path = (\<lambda>n. n @ ''.xsd''),
     xinclude = xinclude_docs ex_docs,
     elementpath = (\<lambda>p t. Inl SyntaxError)\<rparr>"

definition ex_xinclude :: element where
  "ex_xinclude = Element xi_include [(''href'', ''/r/iati-common.xsd''), (''parse'', ''xml'')]
     (NSMAP @ [(xi_name, xi_uri)]) []"

definition ex_rewritten :: element where
  "ex_rewritten = Element schema_xpath [] [(xi_name, xi_uri)]
     [ex_note, ex_import', ex_xinclude, ex_activities]"

definition ex_flat :: element where
  "ex_flat = Element schema_xpath [] [(xi_name, xi_uri)]
     [ex_note, ex_import', ex_title, ex_org, ex_activities]"



definition ex_substituted :: element where
  "ex_substituted = el schema_xpath [] [ex_import', ex_common, ex_activities]"







section \<open>Basic facts\<close>

lemma set_children_twice [simp]: "set_children cs (set_children ds e) = set_children cs e"
  by (simp add: set_children_def)

lemma children_set_children [simp]: "children (set_children cs e) = cs"
  by (simp add: set_children_def)

lemma tag_set_children [simp]: "tag (set_children cs e) = tag e"
  by (simp add: set_children_def)

lemma set_children_children [simp]: "set_children (children e) e = e"
  by (cases e) (simp add: set_children_def)

lemma remove1_after_kept:
  "\<forall>k\<in>set ks. k \<noteq> e \<Longrightarrow> remove1 e (ks @ e # es) = ks @ es"
  by (induction ks) auto

lemma move_up_closed:
  assumes "i < length rs"
    and "children (rs ! i) = ks @ es"
    and "\<forall>k\<in>set ks. get k ''schemaLocation'' \<noteq> None"
  shows "move_up i es rs =
     take i rs @ set_children (ks @ filter (\<lambda>c. get c ''schemaLocation'' \<noteq> None) es) (rs ! i)
       # rev (filter (\<lambda>c. get c ''schemaLocation'' = None) es) @ drop (Suc i) rs"
  using assms
proof (induction es arbitrary: rs ks)
  case Nil
  then have "set_children ks (rs ! i) = rs ! i" by auto
  with Nil show ?case by (simp add: id_take_nth_drop [symmetric])
next
  case (Cons e es)
  show ?case
  proof (cases "get e ''schemaLocation'' = None")
    case False
    have "move_up i es rs =
       take i rs @ set_children ((ks @ [e]) @ filter (\<lambda>c. get c ''schemaLocation'' \<noteq> None) es) (rs ! i)
         # rev (filter (\<lambda>c. get c ''schemaLocation'' = None) es) @ drop (Suc i) rs"
      using Cons.prems False by (intro Cons.IH) auto
    with False show ?thesis by simp
  next
    case True
    let ?w = "remove_child e (rs ! i)"
    let ?rs = "insert_at (Suc i) e (rs[i := ?w])"
    have ne: "\<forall>k\<in>set ks. k \<noteq> e" using Cons.prems(3) True by auto
    have w: "?w = set_children (ks @ es) (rs ! i)"
      using Cons.prems(2) ne by (simp add: remove_child_def remove1_after_kept)
    have rs: "?rs = take i rs @ ?w # e # drop (Suc i) rs"
      using Cons.prems(1) by (simp add: insert_at_def take_Suc_conv_app_nth upd_conv_take_nth_drop)
    have len: "i < length ?rs" using Cons.prems(1) by (simp add: rs)
    have nth: "?rs ! i = ?w" using Cons.prems(1) by (simp add: rs nth_append)
    have tk: "take i ?rs = take i rs" using Cons.prems(1) by (simp add: rs)
    have dr: "drop (Suc i) ?rs = e # drop (Suc i) rs" using Cons.prems(1) by (simp add: rs)
    have ch: "children (?rs ! i) = ks @ es" unfolding nth unfolding w by simp
    have "move_up i es ?rs =
       take i ?rs @ set_children (ks @ filter (\<lambda>c. get c ''schemaLocation'' \<noteq> None) es) (?rs ! i)
         # rev (filter (\<lambda>c. get c ''schemaLocation'' = None) es) @ drop (Suc i) ?rs"
      using len ch Cons.prems(3) by (rule Cons.IH)
    then have "move_up i es ?rs =
       take i rs @ set_children (ks @ filter (\<lambda>c. get c ''schemaLocation'' \<noteq> None) es) ?w
         # rev (filter (\<lambda>c. get c ''schemaLocation'' = None) es) @ e # drop (Suc i) rs"
      unfolding tk dr nth by simp
    then show ?thesis using True by (simp add: w)
  qed
qed

lemma move_up_hoisted:
  assumes "i < length rs"
  shows "move_up i (children (rs ! i)) rs =
     take i rs @ set_children (stays (rs ! i)) (rs ! i) # rev (moved (rs ! i)) @ drop (Suc i) rs"
  using move_up_closed [OF assms, of "[]" "children (rs ! i)"] by (simp add: stays_def moved_def)

lemma findall_index_Cons:
  "findall_index t (c # cs) =
     (if tag c = t then [0] else []) @ map Suc (findall_index t cs)"
proof -
  have "[0..<length (c # cs)] = 0 # map Suc [0..<length cs]"
    by (simp add: upt_conv_Cons map_Suc_upt del: upt_Suc)
  then show ?thesis
    by (simp add: findall_index_def filter_map comp_def del: upt_Suc)
qed

lemma nested_loop_closed_gen:
  "nested_loop (map (\<lambda>j. j + length pre) (findall_index t cs)) (pre @ cs) =
     pre @ concat (map (hoisted t) cs)"
proof (induction cs arbitrary: pre)
  case Nil
  then show ?case by (simp add: findall_index_def)
next
  case (Cons c cs)
  show ?case
  proof (cases "tag c = t")
    case False
    have "nested_loop (map (\<lambda>j. j + length (pre @ [c])) (findall_index t cs)) ((pre @ [c]) @ cs) =
       (pre @ [c]) @ concat (map (hoisted t) cs)"
      by (rule Cons.IH)
    moreover have "hoisted t c = [c]" using False by (simp add: hoisted_def)
    ultimately show ?thesis using False
      by (simp add: findall_index_Cons comp_def)
  next
    case True
    let ?rs = "pre @ c # cs"
    let ?i = "length pre"
    let ?pre = "pre @ set_children (stays c) c # rev (moved c)"
    have mv: "move_up ?i (children (?rs ! ?i)) ?rs = ?pre @ cs"
      using move_up_hoisted [of ?i ?rs] by simp
    have idx: "map (\<lambda>j. j + ?i) (findall_index t (c # cs)) =
        ?i # map (\<lambda>j. Suc (j + ?i)) (findall_index t cs)"
      using True by (simp add: findall_index_Cons comp_def)
    have shift: "map (\<lambda>j. j + (length (?pre @ cs) - length ?rs))
          (map (\<lambda>j. Suc (j + ?i)) (findall_index t cs))
        = map (\<lambda>j. j + length ?pre) (findall_index t cs)"
      by (simp add: comp_def)
    have "nested_loop (map (\<lambda>j. j + ?i) (findall_index t (c # cs))) ?rs =
        nested_loop (map (\<lambda>j. j + length ?pre) (findall_index t cs)) (?pre @ cs)"
      unfolding idx nested_loop.simps Let_def mv shift ..
    also have "\<dots> = ?pre @ concat (map (hoisted t) cs)"
      by (rule Cons.IH)
    also have "\<dots> = pre @ concat (map (hoisted t) (c # cs))"
      using True by (simp add: hoisted_def)
    finally show ?thesis .
  qed
qed

lemma nested_loop_closed:
  "nested_loop (findall_index t cs) cs = concat (map (hoisted t) cs)"
  using nested_loop_closed_gen [of "[]" t cs] by simp

lemma strip_elements_eq:
  "strip_elements t e = set_children (strip_list t (children e)) e"
  by (cases e) (simp add: strip_list_def set_children_def)

lemma tag_strip_elements [simp]: "tag (strip_elements t e) = tag e"
  by (cases e) simp

lemma attrib_strip_elements [simp]: "attrib (strip_elements t e) = attrib e"
  by (cases e) simp

lemma nsmap_strip_elements [simp]: "nsmap (strip_elements t e) = nsmap e"
  by (cases e) simp

lemma children_strip_elements: "children (strip_elements t e) = strip_list t (children e)"
  by (cases e) (simp add: strip_list_def)

lemma get_strip_elements [simp]: "get (strip_elements t e) k = get e k"
  by (simp add: get_def)

lemma strip_list_Nil [simp]: "strip_list t [] = []"
  by (simp add: strip_list_def)

lemma strip_list_Cons:
  "strip_list t (c # cs) = (if tag c = t then [] else [strip_elements t c]) @ strip_list t cs"
  by (simp add: strip_list_def)

lemma strip_list_append: "strip_list t (xs @ ys) = strip_list t xs @ strip_list t ys"
  by (simp add: strip_list_def)

lemma strip_list_rev: "strip_list t (rev xs) = rev (strip_list t xs)"
  by (simp add: strip_list_def rev_map rev_filter)

lemma strip_list_concat: "strip_list t (concat xss) = concat (map (strip_list t) xss)"
  by (induction xss) (simp_all add: strip_list_append)

lemma strip_list_filter_get:
  "strip_list t (filter (\<lambda>c. P (get c k)) cs) = filter (\<lambda>c. P (get c k)) (strip_list t cs)"
  by (induction cs) (simp_all add: strip_list_Cons)

lemma strip_elements_idem: "strip_elements t (strip_elements t e) = strip_elements t e"
proof (induction e)
  case (Element tg a n cs)
  have "map (strip_elements t) (filter (\<lambda>c. tag c \<noteq> t) (map (strip_elements t) (filter (\<lambda>c. tag c \<noteq> t) cs)))
      = map (strip_elements t) (filter (\<lambda>c. tag c \<noteq> t) cs)"
    using Element.IH by (induction cs) auto
  then show ?case by simp
qed

lemma strip_list_idem: "strip_list t (strip_list t cs) = strip_list t cs"
  by (induction cs) (simp_all add: strip_list_Cons strip_elements_idem)

lemma strip_list_map_strip: "strip_list t (map (strip_elements t) cs) = strip_list t cs"
  by (induction cs) (simp_all add: strip_list_Cons strip_elements_idem)

lemma strip_list_hoisted:
  "strip_list t (hoisted t c) =
     (if tag c = t then rev (strip_list t (moved c)) else [strip_elements t c])"
  by (simp add: hoisted_def strip_list_Cons strip_list_rev)

lemma children_remove_nested_schema:
  "children (remove_nested_schema tree) =
     concat (map (\<lambda>c. strip_list schema_xpath (hoisted schema_xpath c)) (children tree))"
  by (simp add: remove_nested_schema_def children_strip_elements nested_loop_closed
      strip_list_concat comp_def)

lemma remove_nested_schema_eq:
  "remove_nested_schema tree =
     set_children (concat (map (\<lambda>c. strip_list schema_xpath (hoisted schema_xpath c))
       (children tree))) tree"
  by (simp add: remove_nested_schema_def strip_elements_eq nested_loop_closed
      strip_list_concat comp_def)

lemma moved_strip_elements:
  "strip_list t (moved (strip_elements t w)) = strip_list t (moved w)"
proof -
  let ?P = "\<lambda>c. get c ''schemaLocation'' = None"
  have "strip_list t (filter ?P (strip_list t (children w))) =
      strip_list t (strip_list t (filter ?P (children w)))"
    using strip_list_filter_get [of t "\<lambda>v. v = None" "''schemaLocation''" "children w"]
    by simp
  then show ?thesis
    by (simp add: moved_def children_strip_elements strip_list_idem)
qed

lemma tags_below_children:
  "tags_below e = (\<Union>c\<in>set (children e). insert (tag c) (tags_below c))"
  by (cases e) (auto simp: tags_below_def)

lemma tags_below_strip_elements: "tags_below (strip_elements t e) \<subseteq> tags_below e - {t}"
proof (induction e)
  case (Element tg a n cs)
  have "tags_below (strip_elements t (Element tg a n cs)) =
      (\<Union>c\<in>{c \<in> set cs. tag c \<noteq> t}. insert (tag c) (tags_below (strip_elements t c)))"
    by (subst tags_below_children) auto
  also have "\<dots> \<subseteq> (\<Union>c\<in>set cs. insert (tag c) (tags_below c)) - {t}"
    using Element.IH by blast
  also have "\<dots> = tags_below (Element tg a n cs) - {t}"
    by (subst (2) tags_below_children) simp
  finally show ?case .
qed

lemma tags_below_set_children:
  "tags_below (set_children cs e) = (\<Union>c\<in>set cs. insert (tag c) (tags_below c))"
  by (subst tags_below_children) simp

lemma tags_hoisted:
  "(\<Union>d\<in>set (hoisted t c). insert (tag d) (tags_below d)) \<subseteq> insert (tag c) (tags_below c)"
proof (cases "tag c = t")
  case False
  then show ?thesis by (simp add: hoisted_def)
next
  case True
  have "set (stays c) \<union> set (moved c) \<subseteq> set (children c)"
    by (auto simp: stays_def moved_def)
  then have "(\<Union>d\<in>set (stays c) \<union> set (moved c). insert (tag d) (tags_below d)) \<subseteq> tags_below c"
    by (subst (2) tags_below_children) blast
  then show ?thesis using True
    by (auto simp: hoisted_def tags_below_set_children)
qed

lemma tags_below_remove_nested_schema:
  "tags_below (remove_nested_schema tree) \<subseteq> tags_below tree - {schema_xpath}"
proof -
  let ?mid = "set_children (concat (map (hoisted schema_xpath) (children tree))) tree"
  have "tags_below ?mid \<subseteq> tags_below tree"
    using tags_hoisted [of schema_xpath]
    by (subst (2) tags_below_children) (fastforce simp: tags_below_set_children)
  moreover have "remove_nested_schema tree = strip_elements schema_xpath ?mid"
    by (simp add: remove_nested_schema_def nested_loop_closed)
  ultimately show ?thesis
    using tags_below_strip_elements [of schema_xpath ?mid] by auto
qed

lemma find_tag_Some:
  assumes "children tree = pre @ c # post" and "tag c = t" and "\<forall>d\<in>set pre. tag d \<noteq> t"
  shows "find_tag t tree = Some c" and "index_tag t (children tree) = length pre"
proof -
  have "List.find (\<lambda>d. tag d = t) (pre @ c # post) = Some c"
    using assms(2,3) by (induction pre) auto
  then show "find_tag t tree = Some c" by (simp add: find_tag_def assms(1))
  have "takeWhile (\<lambda>d. tag d \<noteq> t) (pre @ c # post) = pre"
    using assms(2,3) by (induction pre) auto
  then show "index_tag t (children tree) = length pre" by (simp add: index_tag_def assms(1))
qed


lemma get_set_attrib: "get (set_attrib k v e) k' = (if k' = k then Some v else get e k')"
  by (simp add: get_def set_attrib_def update_conv')

lemma tag_set_attrib [simp]: "tag (set_attrib k v e) = tag e"
  by (simp add: set_attrib_def)

lemma children_set_attrib [simp]: "children (set_attrib k v e) = children e"
  by (simp add: set_attrib_def)

lemma include_import_distinct [simp]:
  "import_xpath \<noteq> include_xpath" "xi_include \<noteq> include_xpath"
  by (simp_all add: import_xpath_def include_xpath_def xi_include_def xi_uri_def NAMESPACE_def)

lemma new_nsmap_eq:
  "AList.update xi_name xi_uri (fold (\<lambda>(key, val). AList.update key val) NSMAP []) =
     NSMAP @ [(xi_name, xi_uri)]"
  by (simp add: NSMAP_def xi_name_def)

section \<open>The pipeline and the lookups\<close>

lemma change_include_None_iff:
  "change_include_to_xinclude env tree = Inr None \<longleftrightarrow> find_tag include_xpath tree = None"
  by (auto simp: change_include_to_xinclude_def Let_def split: option.splits)

lemma change_include_no_include:
  assumes "change_include_to_xinclude env tree = Inr (Some tree1)"
  shows "include_xpath \<notin> tags_below tree1"
proof -
  obtain tree2 where "tree1 = strip_elements include_xpath tree2"
    using assms
    by (auto simp: change_include_to_xinclude_def Let_def split: option.splits)
  then show ?thesis
    using tags_below_strip_elements [of include_xpath tree2] by auto
qed

lemma flatten_includes_no_include:
  "find_tag include_xpath tree = None \<Longrightarrow> flatten_includes env tree = Inr tree"
  by (simp add: flatten_includes_def change_include_None_iff [THEN iffD2])

lemma Schema_init_Inr:
  assumes "Schema_init env path = (log, Inr s)"
  shows "\<exists>tree. load_as_tree env path = Inr tree
    \<and> flatten_includes env tree = Inr (schema_base_tree s) \<and> codelists s = {} \<and> log = []"
  using assms by (auto simp: Schema_init_def split: sum.splits if_splits)

lemma find_first:
  "List.find P xs = Some x \<longleftrightarrow> (\<exists>pre post. xs = pre @ x # post \<and> P x \<and> (\<forall>y\<in>set pre. \<not> P y))"
proof (induction xs)
  case Nil
  then show ?case by simp
next
  case (Cons a xs)
  show ?case
  proof (cases "P a")
    case True
    have "(\<exists>pre post. a # xs = pre @ x # post \<and> P x \<and> (\<forall>y\<in>set pre. \<not> P y)) \<longleftrightarrow> a = x"
    proof
      assume "\<exists>pre post. a # xs = pre @ x # post \<and> P x \<and> (\<forall>y\<in>set pre. \<not> P y)"
      then obtain pre post where e: "a # xs = pre @ x # post" and n: "\<forall>y\<in>set pre. \<not> P y"
        by blast
      show "a = x"
      proof (cases pre)
        case Nil
        with e show ?thesis by simp
      next
        case (Cons b pre')
        with e n True show ?thesis by auto
      qed
    next
      assume "a = x"
      with True show "\<exists>pre post. a # xs = pre @ x # post \<and> P x \<and> (\<forall>y\<in>set pre. \<not> P y)"
        by (intro exI [of _ "[]"] exI [of _ xs]) simp
    qed
    with True show ?thesis by auto
  next
    case False
    have "(\<exists>pre post. a # xs = pre @ x # post \<and> P x \<and> (\<forall>y\<in>set pre. \<not> P y)) \<longleftrightarrow>
        (\<exists>pre post. xs = pre @ x # post \<and> P x \<and> (\<forall>y\<in>set pre. \<not> P y))"
    proof
      assume "\<exists>pre post. a # xs = pre @ x # post \<and> P x \<and> (\<forall>y\<in>set pre. \<not> P y)"
      then obtain pre post where e: "a # xs = pre @ x # post" and p: "P x"
        and n: "\<forall>y\<in>set pre. \<not> P y"
        by blast
      from e p False obtain pre' where "pre = a # pre'"
        by (cases pre) auto
      with e n p show "\<exists>pre post. xs = pre @ x # post \<and> P x \<and> (\<forall>y\<in>set pre. \<not> P y)"
        by auto
    next
      assume "\<exists>pre post. xs = pre @ x # post \<and> P x \<and> (\<forall>y\<in>set pre. \<not> P y)"
      then obtain pre post where "xs = pre @ x # post" "P x" "\<forall>y\<in>set pre. \<not> P y"
        by blast
      with False show "\<exists>pre post. a # xs = pre @ x # post \<and> P x \<and> (\<forall>y\<in>set pre. \<not> P y)"
        by (intro exI [of _ "a # pre"] exI [of _ post]) simp
    qed
    with False Cons.IH show ?thesis by simp
  qed
qed

lemma get_xsd_element_plain:
  assumes "dquote \<notin> set name"
  shows "get_xsd_element env tree name = Inr (List.find (named name) (iterdescendants tree))"
proof -
  have "dropWhile (\<lambda>c. c \<noteq> dquote) name = []"
    using assms by (auto simp: dropWhile_eq_Nil_conv)
  then show ?thesis
    by (simp add: get_xsd_element_def named_def [abs_def])
qed

lemma get_xsd_element_trailing_quote:
  assumes "dquote \<notin> set name"
  shows "get_xsd_element env tree (name @ [dquote]) = Inl SyntaxError"
proof -
  have "dropWhile (\<lambda>c. c \<noteq> dquote) (name @ [dquote]) = [dquote]"
    using assms by (simp add: dropWhile_append)
  then show ?thesis
    by (simp add: get_xsd_element_def)
qed








section \<open>The examples, evaluated\<close>


lemma ex_main_rewritten: "change_include_to_xinclude ex_env ex_main = Inr (Some ex_rewritten)"
  by code_simp

lemma ex_main_flat: "flatten_includes ex_env ex_main = Inr ex_flat"
  by code_simp

lemma ex_flat_again: "flatten_includes ex_env ex_flat = Inr ex_flat"
  by code_simp



lemma ex_nested_flat: "flatten_includes ex_env ex_nested = Inr ex_nested"
  by code_simp

lemma ex_plain_flat: "flatten_includes ex_env ex_plain = Inr ex_plain"
  by code_simp

lemma ex_load:
  "load_as_tree ex_env ''main.xsd'' = Inr ex_main"
  "load_as_tree ex_env ''plain.xsd'' = Inr ex_plain"
  "load_as_tree ex_env ''nested.xsd'' = Inr ex_nested"
  "load_as_tree ex_env ''chain.xsd'' = Inr ex_chain"
  "load_as_tree ex_env ''missing.xsd'' = Inl IOError"
  by (simp_all add: ex_env_def)

lemma ex_tags:
  "schema_xpath \<in> tags_below ex_nested" "xi_include \<in> tags_below ex_nested"
  "include_xpath \<in> tags_below ex_nested"
  by (simp_all add: tags_below_def ex_nested_def el_def ex_title_def ex_include_def)


section \<open>Hoisting\<close>

text \<open>
  C9. A nested schema element that is not a child of the root contributes nothing to
  the flattened tree: removing every such element with its subtree before the loops
  run (\<^verbatim>\<open>strip_elements\<close> applied to each child of the root) gives the same
  flattened tree. Its children are never moved into the root, and the final strip
  deletes it with all its descendants; no nested schema element is left below the
  root.
\<close>

theorem nested_markers_dropped:
  "remove_nested_schema
     (set_children (map (strip_elements schema_xpath) (children tree)) tree) =
   remove_nested_schema tree
   \<and> schema_xpath \<notin> tags_below (remove_nested_schema tree)"
proof
  show "remove_nested_schema
     (set_children (map (strip_elements schema_xpath) (children tree)) tree) =
   remove_nested_schema tree"
    by (simp add: remove_nested_schema_eq strip_list_hoisted comp_def moved_strip_elements
        strip_elements_idem cong: if_cong)
  show "schema_xpath \<notin> tags_below (remove_nested_schema tree)"
    using tags_below_remove_nested_schema [of tree] by auto
qed

text \<open>
  C1, as the code has it. For a nested schema element \<open>w\<close> among the children of the
  root, the loops leave \<open>w\<close> with the children that carry a \<^verbatim>\<open>schemaLocation\<close>, and
  put the other children right behind it, the last one first: each one is inserted at
  the position behind \<open>w\<close>, in front of the ones inserted before it. The final strip
  deletes \<open>w\<close>, those of the moved children that are nested schema elements
  themselves, and every nested schema element below the others. After it the moved
  children that are left stand where \<open>w\<close> was, in the reverse of their order in \<open>w\<close>.
\<close>

theorem hoisting_reversed:
  assumes "children tree = pre @ w # post" and "tag w = schema_xpath"
  shows "nested_loop (findall_index schema_xpath (children tree)) (children tree) =
           nested_loop (findall_index schema_xpath pre) pre
             @ set_children (stays w) w # rev (moved w)
             @ nested_loop (findall_index schema_xpath post) post
       \<and> children (remove_nested_schema tree) =
           children (remove_nested_schema (set_children pre tree))
             @ rev (map (strip_elements schema_xpath)
                      (filter (\<lambda>c. tag c \<noteq> schema_xpath) (moved w)))
             @ children (remove_nested_schema (set_children post tree))"
proof -
  have "strip_list schema_xpath (moved w) =
      map (strip_elements schema_xpath) (filter (\<lambda>c. tag c \<noteq> schema_xpath) (moved w))"
    by (simp add: strip_list_def)
  with assms show ?thesis
    by (simp add: nested_loop_closed children_remove_nested_schema strip_list_hoisted hoisted_def
        strip_list_Cons strip_list_rev)
qed

theorem hoisting_reversed_witness:
  "children ex_substituted = [ex_import'] @ ex_common # [ex_activities]
   \<and> tag ex_common = schema_xpath
   \<and> moved ex_common = [ex_org, ex_title]
   \<and> children (remove_nested_schema ex_substituted) =
        [ex_import', ex_title, ex_org, ex_activities]"
proof -
  have h1: "children ex_substituted = [ex_import'] @ ex_common # [ex_activities]"
    by (simp add: ex_substituted_def el_def)
  have h2: "tag ex_common = schema_xpath"
    by (simp add: ex_common_def el_def)
  have m: "moved ex_common = [ex_org, ex_title]"
    by (simp add: moved_def ex_common_def el_def ex_import_def ex_org_def ex_title_def get_def)
  have s: "map (strip_elements schema_xpath)
      (filter (\<lambda>c. tag c \<noteq> schema_xpath) [ex_org, ex_title]) = [ex_org, ex_title]"
    by code_simp
  have p: "children (remove_nested_schema (set_children [ex_import'] ex_substituted)) =
      [ex_import']"
    by (simp add: children_remove_nested_schema hoisted_def strip_list_def ex_import'_def
        el_def import_xpath_def schema_xpath_def)
  have q: "children (remove_nested_schema (set_children [ex_activities] ex_substituted)) =
      [ex_activities]"
    by (simp add: children_remove_nested_schema hoisted_def strip_list_def ex_activities_def
        ex_shape_def ex_inline_def ex_ref_title_def ex_bare_def ex_ref_missing_def el_def
        xsd_element_def xsd_complexType_def xsd_sequence_def schema_xpath_def)
  show ?thesis
    using hoisting_reversed [OF h1 h2] h1 h2 m p q unfolding m s by simp
qed

theorem hoisting_order_counterexample:
  "children (remove_nested_schema (el schema_xpath [] [el schema_xpath [] [ex_org, ex_title]]))
     = [ex_title, ex_org]
   \<and> [ex_title, ex_org] \<noteq> [ex_org, ex_title]"
  by code_simp

text \<open>A moved child that is a nested schema element itself is deleted by the strip,
  with what it holds.\<close>

lemma hoisted_schema_deleted:
  "children (remove_nested_schema
     (el schema_xpath [] [el schema_xpath [] [ex_org, el schema_xpath [] [ex_note], ex_title]]))
     = [ex_title, ex_org]"
  by code_simp

section \<open>The rewriter\<close>

text \<open>
  C3. When the root has an \<^verbatim>\<open>xsd:include\<close> child with a \<^verbatim>\<open>schemaLocation\<close> and an
  \<^verbatim>\<open>xsd:import\<close> child, the rewriter returns the tree in which the first import has
  the path of \<^verbatim>\<open>xml.xsd\<close> as its \<^verbatim>\<open>schemaLocation\<close> and its other attributes as
  before, the new \<^verbatim>\<open>xi:include\<close> element stands right behind that import, the other
  children of the root keep their order, and no \<^verbatim>\<open>xsd:include\<close> element is left
  anywhere below the root.
\<close>

theorem rewrite_include:
  assumes "find_tag include_xpath tree = Some include_el"
    and "get include_el ''schemaLocation'' = Some include_location"
    and "children tree = pre @ import_el # post"
    and "tag import_el = import_xpath"
    and "\<forall>c\<in>set pre. tag c \<noteq> import_xpath"
  shows "\<exists>tree' import_el' xinclude_el.
      change_include_to_xinclude env tree = Inr (Some tree')
    \<and> children tree' =
        strip_list include_xpath pre @ import_el' # xinclude_el # strip_list include_xpath post
    \<and> tag tree' = tag tree \<and> attrib tree' = attrib tree
    \<and> tag import_el' = import_xpath
    \<and> (\<forall>k. get import_el' k =
          (if k = ''schemaLocation''
           then Some (resource_filename env (get_schema_path env ''xml''))
           else get import_el k))
    \<and> xinclude_el = Element xi_include
          [(''href'', resource_filename env (get_schema_path env
              (take (length include_location - 4) include_location))),
           (''parse'', ''xml'')]
          (NSMAP @ [(xi_name, xi_uri)]) []
    \<and> include_xpath \<notin> tags_below tree'"
proof -
  let ?tree1 = "add_namespace tree xi_name xi_uri"
  let ?imp = "set_attrib ''schemaLocation'' (resource_filename env (get_schema_path env ''xml''))
      import_el"
  let ?xi = "Element xi_include
          [(''href'', resource_filename env (get_schema_path env
              (take (length include_location - 4) include_location))),
           (''parse'', ''xml'')]
          (NSMAP @ [(xi_name, xi_uri)]) []"
  let ?tree2 = "set_children (pre @ ?imp # ?xi # post) ?tree1"
  have ch1: "children ?tree1 = pre @ import_el # post"
    by (simp add: add_namespace_def assms(3))
  have f: "find_tag import_xpath ?tree1 = Some import_el"
    and i: "index_tag import_xpath (children ?tree1) = length pre"
    using find_tag_Some [OF ch1 assms(4,5)] by simp_all
  have ins: "insert_at (length pre + 1) ?xi ((children ?tree1)[length pre := ?imp]) =
      pre @ ?imp # ?xi # post"
    by (simp add: ch1 insert_at_def)
  have res: "change_include_to_xinclude env tree = Inr (Some (strip_elements include_xpath ?tree2))"
    unfolding change_include_to_xinclude_def
    by (simp add: assms(1,2) f i ins new_nsmap_eq Let_def del: One_nat_def)
  have ch: "children (strip_elements include_xpath ?tree2) =
      strip_list include_xpath pre @ strip_elements include_xpath ?imp # ?xi
        # strip_list include_xpath post"
    by (simp add: children_strip_elements strip_list_append strip_list_Cons assms(4))
  have "include_xpath \<notin> tags_below (strip_elements include_xpath ?tree2)"
    using tags_below_strip_elements [of include_xpath ?tree2] by auto
  moreover have "tag (strip_elements include_xpath ?tree2) = tag tree"
    "attrib (strip_elements include_xpath ?tree2) = attrib tree"
    by (simp_all add: add_namespace_def set_children_def)
  moreover have "\<forall>k. get (strip_elements include_xpath ?imp) k =
          (if k = ''schemaLocation''
           then Some (resource_filename env (get_schema_path env ''xml''))
           else get import_el k)"
    by (simp add: get_set_attrib)
  ultimately show ?thesis using res ch assms(4)
    by (intro exI [of _ "strip_elements include_xpath ?tree2"]
        exI [of _ "strip_elements include_xpath ?imp"] exI [of _ ?xi]) simp
qed

theorem rewrite_include_witness:
  "find_tag include_xpath ex_main = Some ex_include
   \<and> get ex_include ''schemaLocation'' = Some ''iati-common.xsd''
   \<and> children ex_main = [ex_note] @ ex_import # [ex_include, ex_activities]
   \<and> tag ex_import = import_xpath
   \<and> tag ex_note \<noteq> import_xpath
   \<and> change_include_to_xinclude ex_env ex_main = Inr (Some ex_rewritten)
   \<and> children ex_rewritten = [ex_note] @ ex_import' # ex_xinclude # [ex_activities]
   \<and> include_xpath \<notin> tags_below ex_rewritten"
proof -
  have h1: "find_tag include_xpath ex_main = Some ex_include" by code_simp
  have h2: "get ex_include ''schemaLocation'' = Some ''iati-common.xsd''" by code_simp
  have h3: "children ex_main = [ex_note] @ ex_import # [ex_include, ex_activities]"
    by (simp add: ex_main_def el_def)
  have h4: "tag ex_import = import_xpath" by (simp add: ex_import_def el_def)
  have h5: "\<forall>c\<in>set [ex_note]. tag c \<noteq> import_xpath"
    by (simp add: ex_note_def el_def import_xpath_def)
  obtain tree' where "change_include_to_xinclude ex_env ex_main = Inr (Some tree')"
    and "include_xpath \<notin> tags_below tree'"
    using rewrite_include [OF h1 h2 h3 h4 h5, of ex_env] by blast
  then have "include_xpath \<notin> tags_below ex_rewritten"
    by (simp add: ex_main_rewritten)
  moreover have "children ex_rewritten = [ex_note] @ ex_import' # ex_xinclude # [ex_activities]"
    by (simp add: ex_rewritten_def)
  ultimately show ?thesis
    using h1 h2 h3 h4 h5 ex_main_rewritten by simp
qed

section \<open>Construction\<close>

text \<open>
  C8. When the loader fails on a path with an \<^verbatim>\<open>IOError\<close> or an \<^verbatim>\<open>OSError\<close>, the
  constructor logs one message, which holds the path, and raises the schema error; what
  it returns is the error, not a schema.
\<close>

theorem load_failure:
  assumes "load_as_tree env path = Inl e" and "e = IOError \<or> e = OSError"
  shows "Schema_init env path = ([load_failure_msg path], Inl SchemaError)
    \<and> (\<exists>before after. load_failure_msg path = before @ path @ after)
    \<and> (\<forall>s. snd (Schema_init env path) \<noteq> Inr s)"
proof -
  have "Schema_init env path = ([load_failure_msg path], Inl SchemaError)"
    using assms by (auto simp: Schema_init_def)
  moreover have "\<exists>before after. load_failure_msg path = before @ path @ after"
    unfolding load_failure_msg_def by (metis append_assoc)
  ultimately show ?thesis by simp
qed

theorem load_failure_witness:
  "load_as_tree ex_env ''missing.xsd'' = Inl IOError \<and> (IOError = IOError \<or> IOError = OSError)
   \<and> Schema_init ex_env ''missing.xsd'' = ([load_failure_msg ''missing.xsd''], Inl SchemaError)"
  using load_failure [of ex_env "''missing.xsd''" IOError] ex_load(5) by simp

text \<open>
  C7. When the loaded tree has no \<^verbatim>\<open>xsd:include\<close> among the children of its root,
  the rewriter returns \<^verbatim>\<open>None\<close> and the schema holds the tree exactly as it was loaded:
  tag, attributes, namespace declarations and children.
\<close>

theorem no_include_unchanged:
  assumes "load_as_tree env path = Inr tree" and "find_tag include_xpath tree = None"
  shows "change_include_to_xinclude env tree = Inr None
    \<and> Schema_init env path = ([], Inr \<lparr>schema_base_tree = tree, codelists = {}\<rparr>)"
  using assms
  by (simp add: Schema_init_def flatten_includes_no_include change_include_None_iff)

theorem no_include_unchanged_witness:
  "load_as_tree ex_env ''plain.xsd'' = Inr ex_plain \<and> find_tag include_xpath ex_plain = None
   \<and> Schema_init ex_env ''plain.xsd'' = ([], Inr \<lparr>schema_base_tree = ex_plain, codelists = {}\<rparr>)"
proof -
  have h: "find_tag include_xpath ex_plain = None" by code_simp
  show ?thesis using no_include_unchanged [OF ex_load(2) h] ex_load(2) h by simp
qed

section \<open>Markers after flattening\<close>

text \<open>
  C2, as the code has it. The constructor flattens only a tree whose root has an
  \<^verbatim>\<open>xsd:include\<close> child. When it does and construction succeeds, the rewritten tree
  that goes to the resolver has no \<^verbatim>\<open>xsd:include\<close> below its root, the tree of the
  schema has no nested \<^verbatim>\<open>xsd:schema\<close> below its root, and every tag that occurs in
  it occurs in the tree the resolver returned: an \<^verbatim>\<open>xsd:include\<close> or
  \<^verbatim>\<open>xi:include\<close> is in the schema only if the resolver left or brought one.
\<close>

theorem flattened_markers:
  assumes "load_as_tree env path = Inr tree"
    and "find_tag include_xpath tree \<noteq> None"
    and "Schema_init env path = (log, Inr s)"
  shows "schema_xpath \<notin> tags_below (schema_base_tree s)
    \<and> (\<exists>tree1 tree2.
          change_include_to_xinclude env tree = Inr (Some tree1)
        \<and> include_xpath \<notin> tags_below tree1
        \<and> xinclude env tree1 = Inr tree2
        \<and> tags_below (schema_base_tree s) \<subseteq> tags_below tree2)"
proof -
  have fl: "flatten_includes env tree = Inr (schema_base_tree s)"
    using Schema_init_Inr [OF assms(3)] assms(1) by auto
  have "change_include_to_xinclude env tree \<noteq> Inr None"
    using assms(2) by (simp add: change_include_None_iff)
  then obtain tree1 where c: "change_include_to_xinclude env tree = Inr (Some tree1)"
    using fl by (auto simp: flatten_includes_def split: sum.splits option.splits)
  then obtain tree2 where x: "xinclude env tree1 = Inr tree2"
    and r: "schema_base_tree s = remove_nested_schema tree2"
    using fl by (auto simp: flatten_includes_def split: sum.splits)
  have "tags_below (schema_base_tree s) \<subseteq> tags_below tree2 - {schema_xpath}"
    unfolding r by (rule tags_below_remove_nested_schema)
  then show ?thesis
    using c x change_include_no_include [OF c] by auto
qed

theorem flattened_markers_witness:
  "load_as_tree ex_env ''main.xsd'' = Inr ex_main
   \<and> find_tag include_xpath ex_main \<noteq> None
   \<and> Schema_init ex_env ''main.xsd'' = ([], Inr \<lparr>schema_base_tree = ex_flat, codelists = {}\<rparr>)
   \<and> schema_xpath \<notin> tags_below ex_flat"
proof -
  have h2: "find_tag include_xpath ex_main \<noteq> None" by code_simp
  have h3: "Schema_init ex_env ''main.xsd'' =
      ([], Inr \<lparr>schema_base_tree = ex_flat, codelists = {}\<rparr>)"
    by (simp add: Schema_init_def ex_load ex_main_flat)
  show ?thesis
    using flattened_markers [OF ex_load(1) h2 h3] ex_load(1) h2 h3 by simp
qed

theorem markers_remain_counterexample:
  "Schema_init ex_env ''nested.xsd'' = ([], Inr \<lparr>schema_base_tree = ex_nested, codelists = {}\<rparr>)
   \<and> schema_xpath \<in> tags_below ex_nested
   \<and> xi_include \<in> tags_below ex_nested
   \<and> include_xpath \<in> tags_below ex_nested"
  by (simp add: Schema_init_def ex_load ex_nested_flat ex_tags)

section \<open>A second run\<close>

lemma schema_include_distinct [simp]:
  "include_xpath \<noteq> schema_xpath" "schema_xpath \<noteq> include_xpath"
  by (simp_all add: include_xpath_def schema_xpath_def)







section \<open>Lookup by name\<close>

text \<open>
  C5, as the code has it. For a name without a double quote the lookup raises nothing
  and returns the first \<^verbatim>\<open>xsd:element\<close> below the root, in document order, whose
  \<^verbatim>\<open>name\<close> attribute is the name, or \<^verbatim>\<open>None\<close> when no element below the root has
  it. The root element itself is not searched.
\<close>

theorem get_xsd_element_first:
  assumes "dquote \<notin> set name"
  shows "case get_xsd_element env tree name of
      Inl err \<Rightarrow> False
    | Inr None \<Rightarrow> \<forall>d\<in>set (iterdescendants tree). \<not> named name d
    | Inr (Some e) \<Rightarrow>
        \<exists>pre post. iterdescendants tree = pre @ e # post \<and> named name e
          \<and> (\<forall>d\<in>set pre. \<not> named name d)"
proof (cases "List.find (named name) (iterdescendants tree)")
  case None
  then have "\<forall>d\<in>set (iterdescendants tree). \<not> named name d"
    by (simp add: find_None_iff)
  with None show ?thesis
    by (simp add: get_xsd_element_plain [OF assms])
next
  case (Some e)
  then have "\<exists>pre post. iterdescendants tree = pre @ e # post \<and> named name e
      \<and> (\<forall>d\<in>set pre. \<not> named name d)"
    by (simp add: find_first)
  with Some show ?thesis
    by (simp add: get_xsd_element_plain [OF assms])
qed

theorem get_xsd_element_first_witness:
  "dquote \<notin> set ''title''
   \<and> get_xsd_element ex_env ex_flat ''title'' = Inr (Some ex_title)
   \<and> (\<exists>pre post. iterdescendants ex_flat = pre @ ex_title # post \<and> named ''title'' ex_title
        \<and> (\<forall>d\<in>set pre. \<not> named ''title'' d))"
proof -
  have h: "dquote \<notin> set ''title''" by (simp add: dquote_def)
  have r: "get_xsd_element ex_env ex_flat ''title'' = Inr (Some ex_title)" by code_simp
  show ?thesis
    using get_xsd_element_first [OF h, where env = ex_env and tree = ex_flat] h r by simp
qed

theorem get_xsd_element_counterexample:
  "get_xsd_element ex_env ex_plain [dquote] = Inl SyntaxError
   \<and> get_xsd_element ex_env (el xsd_element [(''name'', ''a'')] []) ''a'' = Inr None"
  by code_simp

section \<open>Child elements\<close>


lemma ex_children:
  "get_child_xsd_elements ex_env ex_flat ex_activities =
     Inr [Some ex_inline, Some ex_title, None]"
  by code_simp








end
